theory Spec2Isabelle
  imports Main "HOL-Library.Word" "HOL-Library.Multiset"
begin

section \<open>The readers of xLearn: data model of \<^verbatim>\<open>src/reader/reader.h\<close>\<close>

text \<open>
  The header declares an abstract class \<^verbatim>\<open>Reader\<close> and its two implementations,
  \<^verbatim>\<open>InmemReader\<close> and \<^verbatim>\<open>OndiskReader\<close>. Each class is a record; the two subclasses
  extend the record of the base class, as the C++ classes extend \<^verbatim>\<open>Reader\<close>.

  A C++ member \<^verbatim>\<open>shuffle_\<close> is the field \<open>shuffle_'\<close>: an Isabelle name cannot end in an
  underscore. Both subclasses declare a member \<^verbatim>\<open>data_buf_\<close>; the one of \<^verbatim>\<open>OndiskReader\<close>
  is the field \<open>ondisk_data_buf_'\<close>.

  Types the header takes from files it includes:
  \<^item> \<^verbatim>\<open>index_t\<close> (src/base/common.h) counts rows; it is \<open>nat\<close> here, its width plays no
    part in what follows;
  \<^item> \<^verbatim>\<open>uint64\<close> is a 64-bit word;
  \<^item> \<^verbatim>\<open>DMatrix\<close> (src/data/data_structure.h) is the record table, an ordered sequence of
    rows. A row is kept as the text of its line: how a parser decodes one line is the
    same for every reader;
  \<^item> \<^verbatim>\<open>ThreadPool*\<close> is a pointer that may be null;
  \<^item> \<^verbatim>\<open>FILE*\<close> is an open file: its bytes and the read position;
  \<^item> \<^verbatim>\<open>Parser*\<close> is represented by the format name its parser was created for.
  The mutex and the two condition variables of \<^verbatim>\<open>OndiskReader\<close> carry no data and are
  left out.
\<close>

type_synonym index_t = nat
type_synonym uint64 = "64 word"
type_synonym row = string
type_synonym DMatrix = "row list"

datatype ThreadPool_ptr = nullptr | ThreadPool_at nat

record FILE =
  contents :: string
  position :: nat

record Reader =
  filename_' :: string
  data_samples_' :: DMatrix
  parser_' :: string
  has_label_' :: bool
  shuffle_' :: bool

record InmemReader = Reader +
  data_buf_' :: DMatrix
  num_samples_' :: index_t
  pos_' :: index_t
  order_' :: "index_t list"

record OndiskReader = Reader +
  file_ptr_' :: FILE
  ondisk_data_buf_' :: DMatrix
  pool_' :: ThreadPool_ptr
  block_' :: string
  block_size_' :: uint64
  full_' :: bool

subsection \<open>Logging and checks\<close>

text \<open>
  The macros \<^verbatim>\<open>LOG\<close>, \<^verbatim>\<open>CHECK_NOTNULL\<close> and \<^verbatim>\<open>CHECK_GT\<close> come from src/base/common.h,
  which is not part of the sources. An aborted call is \<open>Inl\<close> of the diagnostic: the
  program has stopped and no reader is left to use.
\<close>

datatype severity = INFO | WARNING | ERROR | FATAL

type_synonym log_entry = "severity \<times> string"

datatype error = Fatal_log string | Check_failed string

text \<open>
  Modelled from the spec: the macro \<^verbatim>\<open>LOG\<close> is missing. By the error taxonomy of the
  specification (section 7) a fatal diagnostic aborts at once, and a message below that
  severity is written while the operation continues.
\<close>

definition LOG :: "severity \<Rightarrow> string \<Rightarrow> error + log_entry list" where
  "LOG sev msg = (if sev = FATAL then Inl (Fatal_log msg) else Inr [(sev, msg)])"

text \<open>
  Modelled from the spec: the macro \<^verbatim>\<open>CHECK_NOTNULL\<close> is missing. An invalid pool is a
  fatal error that aborts immediately with a diagnostic (section 7).
\<close>

definition CHECK_NOTNULL :: "ThreadPool_ptr \<Rightarrow> error + unit" where
  "CHECK_NOTNULL p = (if p = nullptr then Inl (Check_failed ''CHECK_NOTNULL'') else Inr ())"

text \<open>
  Modelled from the spec: the macro \<^verbatim>\<open>CHECK_GT\<close> is missing. \<^verbatim>\<open>CHECK_GT(a, b)\<close> passes when
  \<open>a\<close> is greater than \<open>b\<close>; an invalid block size is a fatal error that aborts
  immediately with a diagnostic (section 7).
\<close>

definition CHECK_GT :: "uint64 \<Rightarrow> uint64 \<Rightarrow> error + unit" where
  "CHECK_GT a b = (if b < a then Inr () else Inl (Check_failed ''CHECK_GT''))"

subsection \<open>\<^verbatim>\<open>std::random_shuffle\<close>\<close>

text \<open>
  \<^verbatim>\<open>random_shuffle(first, last)\<close> of the C++ standard library, as libstdc++ writes it:
  \<^verbatim>\<open>
  for (i = first + 1; i != last; ++i) {
    j = first + std::rand() % ((i - first) + 1);
    if (i != j) std::iter_swap(i, j);
  }
  \<close>
  The values \<^verbatim>\<open>std::rand()\<close> returns are the environment's: \<open>rand i\<close> is the value drawn
  in the iteration at index \<open>i\<close>. \<^verbatim>\<open>std::rand()\<close> returns an \<^verbatim>\<open>int\<close> between 0 and
  \<^verbatim>\<open>RAND_MAX\<close>; with glibc, the C library under libstdc++, \<^verbatim>\<open>RAND_MAX\<close> is 2147483647, so
  a drawn value is a 31-bit word.
\<close>

type_synonym rand_value = "31 word"

definition iter_swap :: "nat \<Rightarrow> nat \<Rightarrow> 'a list \<Rightarrow> 'a list" where
  "iter_swap i j xs = xs[i := xs ! j, j := xs ! i]"

definition shuffle_step :: "(nat \<Rightarrow> rand_value) \<Rightarrow> nat \<Rightarrow> 'a list \<Rightarrow> 'a list" where
  "shuffle_step rand i xs =
     (let j = unat (rand i) mod (i + 1) in if i \<noteq> j then iter_swap i j xs else xs)"

definition random_shuffle :: "(nat \<Rightarrow> rand_value) \<Rightarrow> 'a list \<Rightarrow> 'a list" where
  "random_shuffle rand xs = fold (shuffle_step rand) [1..<length xs] xs"

subsection \<open>Constructors\<close>

text \<open>
  \<^verbatim>\<open>Reader() : shuffle_(false)\<close>, \<^verbatim>\<open>InmemReader() : pos_(0)\<close> and
  \<^verbatim>\<open>OndiskReader() : full_(false)\<close>. The string and the vector members are
  default-constructed empty. The members of built-in type without an initialiser keep
  whatever the object's memory held: the argument \<open>raw\<close> is that memory. Among them are
  \<^verbatim>\<open>num_samples_\<close> of the in-memory reader and \<^verbatim>\<open>pool_\<close> and \<^verbatim>\<open>block_size_\<close> of the on-disk
  reader.
\<close>

definition InmemReader_new :: "InmemReader \<Rightarrow> InmemReader" where
  "InmemReader_new raw = raw\<lparr>filename_' := [], shuffle_' := False, pos_' := 0, order_' := []\<rparr>"

definition OndiskReader_new :: "OndiskReader \<Rightarrow> OndiskReader" where
  "OndiskReader_new raw = raw\<lparr>filename_' := [], shuffle_' := False, full_' := False\<rparr>"

subsection \<open>\<^verbatim>\<open>SetShuffle\<close>\<close>

text \<open>
  \<^verbatim>\<open>
  virtual void SetShuffle(bool shuffle) { this->shuffle_ = shuffle; }          // Reader

  virtual void SetShuffle(bool shuffle) {                                      // InmemReader
    this->shuffle_ = shuffle;
    if (shuffle_ && !order_.empty()) {
      random_shuffle(order_.begin(), order_.end());
    }
  }

  void SetShuffle(bool shuffle) {                                              // OndiskReader
    if (shuffle == true) {
      LOG(ERROR) << "Cannot set shuffle for OndiskReader.";
    }
    this->shuffle_ = false;
  }
  \<close>
  The on-disk variant returns what it logged together with the reader.
\<close>

definition Reader_SetShuffle :: "bool \<Rightarrow> 'a Reader_scheme \<Rightarrow> 'a Reader_scheme" where
  "Reader_SetShuffle shuffle r = r\<lparr>shuffle_' := shuffle\<rparr>"

definition InmemReader_SetShuffle ::
    "(nat \<Rightarrow> rand_value) \<Rightarrow> bool \<Rightarrow> InmemReader \<Rightarrow> InmemReader" where
  "InmemReader_SetShuffle rand shuffle r =
     (let r1 = r\<lparr>shuffle_' := shuffle\<rparr> in
      if shuffle_' r1 \<and> order_' r1 \<noteq> []
      then r1\<lparr>order_' := random_shuffle rand (order_' r1)\<rparr>
      else r1)"

definition OndiskReader_SetShuffle ::
    "bool \<Rightarrow> OndiskReader \<Rightarrow> error + (log_entry list \<times> OndiskReader)" where
  "OndiskReader_SetShuffle shuffle r =
     (case (if shuffle = True then LOG ERROR ''Cannot set shuffle for OndiskReader.''
            else Inr []) of
        Inl e \<Rightarrow> Inl e
      | Inr out \<Rightarrow> Inr (out, r\<lparr>shuffle_' := False\<rparr>))"

subsection \<open>Configuration of the on-disk reader\<close>

text \<open>
  \<^verbatim>\<open>
  void SetThreadPool(ThreadPool* pool) { CHECK_NOTNULL(pool); this->pool_ = pool; }
  void SetBlockSize(uint64 size) { CHECK_GT(size, 0); this->block_size_ = size; }
  \<close>
\<close>

definition SetThreadPool :: "ThreadPool_ptr \<Rightarrow> OndiskReader \<Rightarrow> error + OndiskReader" where
  "SetThreadPool pool r =
     (case CHECK_NOTNULL pool of
        Inl e \<Rightarrow> Inl e
      | Inr _ \<Rightarrow> Inr (r\<lparr>pool_' := pool\<rparr>))"

definition SetBlockSize :: "uint64 \<Rightarrow> OndiskReader \<Rightarrow> error + OndiskReader" where
  "SetBlockSize sz r =
     (case CHECK_GT sz 0 of
        Inl e \<Rightarrow> Inl e
      | Inr _ \<Rightarrow> Inr (r\<lparr>block_size_' := sz\<rparr>))"

text \<open>
  A caller configures a fresh reader by a sequence of calls of the two setters; the
  first failed check aborts the program.
\<close>

datatype config_call = Call_SetThreadPool ThreadPool_ptr | Call_SetBlockSize uint64

fun configure :: "config_call list \<Rightarrow> OndiskReader \<Rightarrow> error + OndiskReader" where
  "configure [] r = Inr r"
| "configure (Call_SetThreadPool pool # cs) r =
     (case SetThreadPool pool r of Inl e \<Rightarrow> Inl e | Inr r' \<Rightarrow> configure cs r')"
| "configure (Call_SetBlockSize sz # cs) r =
     (case SetBlockSize sz r of Inl e \<Rightarrow> Inl e | Inr r' \<Rightarrow> configure cs r')"

text \<open>
  The body of \<^verbatim>\<open>OndiskReader::Initialize\<close> is not in the sources: it is the parameter
  \<open>Initialize\<close> below, any function of the reader it is called on (the file name and the
  files it opens are fixed inside the parameter). reader.h notes above the two setters
  that they are to be invoked before \<^verbatim>\<open>Initialize\<close>; a caller's program is then: construct
  the reader, call setters, call \<^verbatim>\<open>Initialize\<close>.
\<close>

definition Initialize_after_setters ::
    "(OndiskReader \<Rightarrow> error + 'a) \<Rightarrow> config_call list \<Rightarrow> OndiskReader \<Rightarrow> error + 'a" where
  "Initialize_after_setters Initialize cs raw =
     (case configure cs (OndiskReader_new raw) of
        Inl e \<Rightarrow> Inl e
      | Inr r \<Rightarrow> Initialize r)"

subsection \<open>Sampling from memory\<close>

text \<open>
  Modelled from the spec: the body of \<^verbatim>\<open>InmemReader::Samples\<close> is missing; reader.h
  declares it. Specification, section 4.3: batches are fixed-size windows of
  \<^verbatim>\<open>num_samples_\<close> consecutive logical rows; \<^verbatim>\<open>Samples()\<close> returns the next window starting
  at an internal cursor and advances it, the final window may be shorter, and at the end
  \<^verbatim>\<open>Samples()\<close> returns zero. The logical order is governed by the order vector: the row
  at logical position \<open>k\<close> is row \<^verbatim>\<open>order_[k]\<close> of the preloaded table.

  \<^verbatim>\<open>Samples\<close> returns the number of rows; the batch is \<^verbatim>\<open>data_samples_\<close>, to which the
  caller's \<^verbatim>\<open>DMatrix*\<close> points afterwards. By section 3 the order vector holds indices of
  the preloaded table only, so every lookup in \<^verbatim>\<open>data_buf_\<close> is in range.
\<close>

definition InmemReader_Samples :: "InmemReader \<Rightarrow> index_t \<times> InmemReader" where
  "InmemReader_Samples r =
     (let window = take (num_samples_' r) (drop (pos_' r) (order_' r)) in
      (length window,
       r\<lparr>data_samples_' := map (\<lambda>i. data_buf_' r ! i) window,
         pos_' := pos_' r + length window\<rparr>))"

text \<open>
  Modelled from the spec: the body of \<^verbatim>\<open>InmemReader::Reset\<close> is missing; reader.h declares
  it. Specification, sections 3 and 4.1: \<^verbatim>\<open>Reset()\<close> returns to the logical beginning; the
  shuffle order is regenerated or kept stable on \<^verbatim>\<open>Reset()\<close> depending on whether
  shuffling is enabled.
\<close>

definition InmemReader_Reset :: "(nat \<Rightarrow> rand_value) \<Rightarrow> InmemReader \<Rightarrow> InmemReader" where
  "InmemReader_Reset rand r =
     r\<lparr>pos_' := 0,
       order_' := (if shuffle_' r then random_shuffle rand (order_' r) else order_' r)\<rparr>"

text \<open>
  One pass, as the usage note at the head of reader.h writes the caller's loop: call
  \<^verbatim>\<open>Samples\<close> until it returns 0. The result is the list of batches and the reader the
  pass leaves behind.
\<close>

function InmemReader_pass :: "InmemReader \<Rightarrow> DMatrix list \<times> InmemReader" where
  "InmemReader_pass r =
     (let (n, r') = InmemReader_Samples r in
      if n = 0 then ([], r')
      else (let (bs, r'') = InmemReader_pass r' in (data_samples_' r' # bs, r'')))"
  by pat_completeness auto
termination
proof (relation "measure (\<lambda>r. length (order_' r) - pos_' r)")
  show "wf (measure (\<lambda>r. length (order_' r) - pos_' r))" by simp
next
  fix r :: InmemReader and x n r'
  assume "x = InmemReader_Samples r" "(n, r') = x" "n \<noteq> 0"
  then show "(r', r) \<in> measure (\<lambda>r. length (order_' r) - pos_' r)"
    by (auto simp: InmemReader_Samples_def Let_def)
qed

subsection \<open>Sampling from disk\<close>

text \<open>
  Modelled from the spec: the parsers (src/reader/parser.h) are missing. The source is a
  line-oriented text file (section 6) and a parser is a stateless translator from a block
  of bytes to rows (section 2): \<open>Parse\<close> cuts a block at its line feeds, one row per
  line; bytes after the last line feed are a row as well.
\<close>

function Parse :: "string \<Rightarrow> DMatrix" where
  "Parse [] = []"
| "Parse (c # cs) =
     takeWhile (\<lambda>x. x \<noteq> CHR 0x0A) (c # cs)
       # Parse (drop 1 (dropWhile (\<lambda>x. x \<noteq> CHR 0x0A) (c # cs)))"
  by pat_completeness auto
termination
proof (relation "measure length")
  show "wf (measure length)" by simp
next
  fix c :: char and cs :: string
  have "length (dropWhile (\<lambda>x. x \<noteq> CHR 0x0A) (c # cs)) \<le> length (c # cs)"
    by (rule length_dropWhile_le)
  then show "(drop 1 (dropWhile (\<lambda>x. x \<noteq> CHR 0x0A) (c # cs)), c # cs) \<in> measure length"
    by (cases "dropWhile (\<lambda>x. x \<noteq> CHR 0x0A) (c # cs)") auto
qed

text \<open>
  Modelled from the spec: the body of \<^verbatim>\<open>shrink_block\<close> is missing; reader.h declares it as
  a friend of \<^verbatim>\<open>OndiskReader\<close>. Section 4.4: truncate to the last complete record
  boundary. What is kept is the block up to and including its last line feed, and
  nothing when the block holds no line feed.
\<close>

definition shrink_block :: "string \<Rightarrow> string" where
  "shrink_block block = rev (dropWhile (\<lambda>x. x \<noteq> CHR 0x0A) (rev block))"

text \<open>
  Modelled from the spec: the body of \<^verbatim>\<open>read_block\<close> is missing; reader.h declares it as a
  friend of \<^verbatim>\<open>OndiskReader\<close>. One iteration of the producer loop of section 4.4: read up to
  the block's capacity; truncate to the last complete record boundary, so that a logical
  row is never split across blocks and no partial row reaches the parser; parse the
  block's valid range into the shared table; mark the buffer full. The end of the source
  is a record boundary: a read that reaches it keeps all its bytes, and the last row is
  served whether or not a line feed ends it (section 8: no row is dropped). Any other read
  is cut behind its last line feed. \<^verbatim>\<open>shrink_block\<close> is given the file as well: the next
  read starts behind the bytes that were kept. The capacity is the block size in bytes
  (section 6).
\<close>

definition read_block :: "OndiskReader \<Rightarrow> OndiskReader" where
  "read_block r =
     (let capacity = unat (block_size_' r);
          f = file_ptr_' r;
          got = take capacity (drop (position f) (contents f));
          valid = (if length (contents f) \<le> position f + length got then got
                   else shrink_block got)
      in r\<lparr>block_' := valid,
           ondisk_data_buf_' := Parse valid,
           file_ptr_' := f\<lparr>position := position f + length valid\<rparr>,
           full_' := True\<rparr>)"

text \<open>
  Modelled from the spec: the body of \<^verbatim>\<open>OndiskReader::Samples\<close> is missing; reader.h
  declares it. Section 4.4: the consumer waits until the buffer is full, takes the
  produced batch by a swap, marks the buffer not full and returns the batch. The N-th call
  of \<^verbatim>\<open>Samples\<close> observes the N-th produced batch, in source order (section 5), so the two
  threads are one sequential step here: a call of \<^verbatim>\<open>Samples\<close> runs one iteration of the
  producer and takes its batch.
\<close>

definition OndiskReader_Samples :: "OndiskReader \<Rightarrow> index_t \<times> OndiskReader" where
  "OndiskReader_Samples r =
     (let p = read_block r in
      (length (ondisk_data_buf_' p),
       p\<lparr>data_samples_' := ondisk_data_buf_' p, ondisk_data_buf_' := data_samples_' p,
         full_' := False\<rparr>))"

text \<open>
  Modelled from the spec: the body of \<^verbatim>\<open>OndiskReader::Reset\<close> is missing; reader.h declares
  it. Section 4.4: \<^verbatim>\<open>Reset()\<close> stops the producer, repositions the source to its start and
  restarts it; the consumer never sees a batch produced before the reset.
\<close>

definition OndiskReader_Reset :: "OndiskReader \<Rightarrow> OndiskReader" where
  "OndiskReader_Reset r =
     r\<lparr>file_ptr_' := (file_ptr_' r)\<lparr>position := 0\<rparr>, full_' := False\<rparr>"

text \<open>One pass of the caller's loop over the on-disk reader.\<close>

function OndiskReader_pass :: "OndiskReader \<Rightarrow> DMatrix list \<times> OndiskReader" where
  "OndiskReader_pass r =
     (let (n, r') = OndiskReader_Samples r in
      if n = 0 then ([], r')
      else (let (bs, r'') = OndiskReader_pass r' in (data_samples_' r' # bs, r'')))"
  by pat_completeness auto
termination
proof (relation "measure (\<lambda>r. length (contents (file_ptr_' r)) - position (file_ptr_' r))")
  show "wf (measure (\<lambda>r. length (contents (file_ptr_' r)) - position (file_ptr_' r)))"
    by simp
next
  fix r :: OndiskReader and x n r'
  assume a: "x = OndiskReader_Samples r" "(n, r') = x" "n \<noteq> 0"
  define capacity where "capacity = unat (block_size_' r)"
  define got where
    "got = take capacity (drop (position (file_ptr_' r)) (contents (file_ptr_' r)))"
  define valid where
    "valid = (if length (contents (file_ptr_' r)) \<le> position (file_ptr_' r) + length got
              then got else shrink_block got)"
  have rb: "read_block r =
      r\<lparr>block_' := valid, ondisk_data_buf_' := Parse valid,
        file_ptr_' := (file_ptr_' r)\<lparr>position := position (file_ptr_' r) + length valid\<rparr>,
        full_' := True\<rparr>"
    by (simp only: read_block_def Let_def valid_def got_def capacity_def)
  have n: "n = length (Parse valid)"
    using a by (simp add: OndiskReader_Samples_def Let_def rb)
  have f: "file_ptr_' r' = (file_ptr_' r)\<lparr>position := position (file_ptr_' r) + length valid\<rparr>"
    using a by (auto simp add: OndiskReader_Samples_def Let_def rb)
  have v: "valid \<noteq> []" using n a(3) by auto
  have "length (shrink_block got) \<le> length got"
    unfolding shrink_block_def by (metis length_rev length_dropWhile_le)
  then have "length valid \<le> length got" by (simp add: valid_def)
  also have "\<dots> \<le> length (contents (file_ptr_' r)) - position (file_ptr_' r)"
    by (simp add: got_def)
  finally have le: "length valid \<le> length (contents (file_ptr_' r)) - position (file_ptr_' r)" .
  have "0 < length valid" using v by simp
  then have "length (contents (file_ptr_' r)) - (position (file_ptr_' r) + length valid)
      < length (contents (file_ptr_' r)) - position (file_ptr_' r)"
    using le by linarith
  then show "(r', r) \<in> measure (\<lambda>r. length (contents (file_ptr_' r)) - position (file_ptr_' r))"
    using f by simp
qed

subsection \<open>Concrete readers used as examples\<close>

definition raw_inmem :: InmemReader where
  "raw_inmem =
     \<lparr>filename_' = ''junk'', data_samples_' = [], parser_' = [], has_label_' = True,
      shuffle_' = True, data_buf_' = [], num_samples_' = 7, pos_' = 5, order_' = []\<rparr>"

definition inmem3 :: InmemReader where
  "inmem3 =
     \<lparr>filename_' = ''train.txt'', data_samples_' = [], parser_' = ''libsvm'',
      has_label_' = True, shuffle_' = False,
      data_buf_' = [''1 1:0.5'', ''0 2:1.5'', ''1 3:2.5''],
      num_samples_' = 2, pos_' = 0, order_' = [0, 1, 2]\<rparr>"

definition raw_ondisk :: OndiskReader where
  "raw_ondisk =
     \<lparr>filename_' = ''junk'', data_samples_' = [], parser_' = [], has_label_' = False,
      shuffle_' = True,
      file_ptr_' = \<lparr>contents = [], position = 0\<rparr>, ondisk_data_buf_' = [],
      pool_' = ThreadPool_at 99, block_' = [], block_size_' = 12345,
      full_' = True\<rparr>"

definition raw_unset :: OndiskReader where
  "raw_unset = raw_ondisk\<lparr>pool_' := nullptr, block_size_' := 0\<rparr>"

definition ondisk3 :: OndiskReader where
  "ondisk3 =
     \<lparr>filename_' = ''train.txt'', data_samples_' = [], parser_' = ''libsvm'',
      has_label_' = True, shuffle_' = False,
      file_ptr_' = \<lparr>contents = ''1 1:0.5'' @ [CHR 0x0A] @ ''0 2:1.5'' @ [CHR 0x0A],
                    position = 0\<rparr>,
      ondisk_data_buf_' = [], pool_' = ThreadPool_at 1, block_' = [],
      block_size_' = 8, full_' = False\<rparr>"

section \<open>The shuffle is a permutation\<close>

lemma iter_swap_length [simp]: "length (iter_swap i j xs) = length xs"
  by (simp add: iter_swap_def)

lemma iter_swap_mset:
  "i < length xs \<Longrightarrow> j < length xs \<Longrightarrow> mset (iter_swap i j xs) = mset xs"
  unfolding iter_swap_def by (rule mset_swap)

lemma shuffle_step_length [simp]: "length (shuffle_step rand i xs) = length xs"
  by (simp add: shuffle_step_def Let_def)

lemma shuffle_step_mset: "i < length xs \<Longrightarrow> mset (shuffle_step rand i xs) = mset xs"
proof -
  assume i: "i < length xs"
  have "unat (rand i) mod (i + 1) < i + 1" by simp
  then have "unat (rand i) mod (i + 1) < length xs" using i by linarith
  then show ?thesis using i by (simp add: shuffle_step_def Let_def iter_swap_mset)
qed

lemma shuffle_steps:
  "\<forall>i \<in> set is. i < length xs \<Longrightarrow>
   length (fold (shuffle_step rand) is xs) = length xs \<and>
   mset (fold (shuffle_step rand) is xs) = mset xs"
proof (induction "is" arbitrary: xs)
  case Nil
  then show ?case by simp
next
  case (Cons i "is")
  have i: "i < length xs" using Cons.prems by simp
  have "\<forall>k \<in> set is. k < length (shuffle_step rand i xs)" using Cons.prems by simp
  from Cons.IH [OF this] show ?case using shuffle_step_mset [OF i] by simp
qed

lemma random_shuffle_length [simp]: "length (random_shuffle rand xs) = length xs"
  unfolding random_shuffle_def using shuffle_steps [of "[1..<length xs]" xs rand] by simp

lemma random_shuffle_mset [simp]: "mset (random_shuffle rand xs) = mset xs"
  unfolding random_shuffle_def using shuffle_steps [of "[1..<length xs]" xs rand] by simp

lemma random_shuffle_Nil [simp]: "random_shuffle rand [] = []"
  by (simp add: random_shuffle_def)

section \<open>Passes and \<^verbatim>\<open>Reset\<close>\<close>

declare InmemReader_pass.simps [simp del] OndiskReader_pass.simps [simp del]

lemma InmemReader_Samples_frame:
  "InmemReader_Samples r = (n, r') \<Longrightarrow>
     order_' r' = order_' r \<and> data_buf_' r' = data_buf_' r \<and> num_samples_' r' = num_samples_' r
     \<and> shuffle_' r' = shuffle_' r \<and> pos_' r' = pos_' r + n
     \<and> n = length (take (num_samples_' r) (drop (pos_' r) (order_' r)))
     \<and> data_samples_' r' = map (\<lambda>i. data_buf_' r ! i) (take (num_samples_' r) (drop (pos_' r) (order_' r)))"
  by (auto simp: InmemReader_Samples_def Let_def)

lemma InmemReader_pass_unfold:
  "InmemReader_Samples r = (n, r') \<Longrightarrow>
   InmemReader_pass r =
     (if n = 0 then ([], r')
      else (data_samples_' r' # fst (InmemReader_pass r'), snd (InmemReader_pass r')))"
  by (subst InmemReader_pass.simps) (simp add: split_beta)

lemma InmemReader_pass_frame:
  "order_' (snd (InmemReader_pass r)) = order_' r \<and> data_buf_' (snd (InmemReader_pass r)) = data_buf_' r
   \<and> num_samples_' (snd (InmemReader_pass r)) = num_samples_' r
   \<and> shuffle_' (snd (InmemReader_pass r)) = shuffle_' r"
proof (induction r rule: InmemReader_pass.induct)
  case (1 r)
  obtain n r' where s: "InmemReader_Samples r = (n, r')" by force
  note fr = InmemReader_Samples_frame [OF s]
  note u = InmemReader_pass_unfold [OF s]
  show ?case
  proof (cases "n = 0")
    case True
    then show ?thesis using fr by (simp add: u)
  next
    case False
    from "1.IH" [OF refl s [symmetric] False] fr
    show ?thesis using False by (simp add: u)
  qed
qed

lemma InmemReader_pass_cong:
  "data_buf_' q = data_buf_' r \<Longrightarrow> order_' q = order_' r \<Longrightarrow> num_samples_' q = num_samples_' r
   \<Longrightarrow> pos_' q = pos_' r \<Longrightarrow> fst (InmemReader_pass q) = fst (InmemReader_pass r)"
proof (induction r arbitrary: q rule: InmemReader_pass.induct)
  case (1 r)
  obtain n r' where s: "InmemReader_Samples r = (n, r')" by force
  obtain m q' where t: "InmemReader_Samples q = (m, q')" by force
  note fr = InmemReader_Samples_frame [OF s]
  note fq = InmemReader_Samples_frame [OF t]
  have mn: "m = n" using fr fq "1.prems" by simp
  have ds: "data_samples_' q' = data_samples_' r'" using fr fq "1.prems" by simp
  show ?case
  proof (cases "n = 0")
    case True
    then show ?thesis using mn
      by (simp add: InmemReader_pass_unfold [OF s] InmemReader_pass_unfold [OF t])
  next
    case False
    have "fst (InmemReader_pass q') = fst (InmemReader_pass r')"
      using fr fq "1.prems" mn by (intro "1.IH" [OF refl s [symmetric] False]) simp_all
    then show ?thesis using mn ds False
      by (simp add: InmemReader_pass_unfold [OF s] InmemReader_pass_unfold [OF t])
  qed
qed

lemma InmemReader_pass_rows:
  "concat (fst (InmemReader_pass r)) =
     (if num_samples_' r = 0 then []
      else map (\<lambda>i. data_buf_' r ! i) (drop (pos_' r) (order_' r)))"
proof (induction r rule: InmemReader_pass.induct)
  case (1 r)
  obtain n r' where s: "InmemReader_Samples r = (n, r')" by force
  note fr = InmemReader_Samples_frame [OF s]
  note u = InmemReader_pass_unfold [OF s]
  show ?case
  proof (cases "n = 0")
    case True
    then have "num_samples_' r = 0 \<or> drop (pos_' r) (order_' r) = []" using fr by auto
    then show ?thesis using True by (auto simp: u)
  next
    case False
    let ?ys = "drop (pos_' r) (order_' r)"
    have pos: "num_samples_' r \<noteq> 0" using False fr by auto
    have ih: "concat (fst (InmemReader_pass r'))
        = map (\<lambda>i. data_buf_' r' ! i) (drop (pos_' r') (order_' r'))"
      using "1.IH" [OF refl s [symmetric] False] fr pos by simp
    have d: "drop (pos_' r') (order_' r') = drop (num_samples_' r) ?ys"
      using fr by (auto simp: min_def add.commute)
    have "concat (fst (InmemReader_pass r)) = data_samples_' r' @ concat (fst (InmemReader_pass r'))"
      using False by (simp add: u)
    also have "\<dots> = map (\<lambda>i. data_buf_' r ! i) (take (num_samples_' r) ?ys)
                      @ map (\<lambda>i. data_buf_' r ! i) (drop (num_samples_' r) ?ys)"
      using fr ih d by simp
    also have "\<dots> = map (\<lambda>i. data_buf_' r ! i)
                       (take (num_samples_' r) ?ys @ drop (num_samples_' r) ?ys)"
      by (simp only: map_append)
    finally show ?thesis using pos by (simp only: append_take_drop_id if_False)
  qed
qed

lemma InmemReader_SetShuffle_fields:
  "shuffle_' (InmemReader_SetShuffle rand b r) = b
   \<and> data_buf_' (InmemReader_SetShuffle rand b r) = data_buf_' r
   \<and> num_samples_' (InmemReader_SetShuffle rand b r) = num_samples_' r
   \<and> pos_' (InmemReader_SetShuffle rand b r) = pos_' r
   \<and> order_' (InmemReader_SetShuffle rand True r) = random_shuffle rand (order_' r)
   \<and> order_' (InmemReader_SetShuffle rand False r) = order_' r"
  by (simp add: InmemReader_SetShuffle_def Let_def)

lemma InmemReader_SetShuffle_order_mset:
  "mset (order_' (InmemReader_SetShuffle rand b r)) = mset (order_' r)"
  by (cases b) (simp_all add: InmemReader_SetShuffle_fields)

lemma rows_of_identity_order:
  "mset os = mset [0..<length buf] \<Longrightarrow> mset (map (\<lambda>i. buf ! i) os) = mset buf"
proof -
  assume a: "mset os = mset [0..<length buf]"
  have "mset (map (\<lambda>i. buf ! i) os) = image_mset (\<lambda>i. buf ! i) (mset [0..<length buf])"
    using a by simp
  also have "\<dots> = mset (map (\<lambda>i. buf ! i) [0..<length buf])" by simp
  also have "\<dots> = mset buf" by (simp only: map_nth)
  finally show ?thesis .
qed


lemma OndiskReader_Samples_frame:
  "OndiskReader_Samples r = (n, r') \<Longrightarrow>
     contents (file_ptr_' r') = contents (file_ptr_' r) \<and> block_size_' r' = block_size_' r
     \<and> shuffle_' r' = shuffle_' r"
  by (auto simp: OndiskReader_Samples_def read_block_def Let_def)

lemma OndiskReader_Samples_cong:
  "file_ptr_' q = file_ptr_' r \<Longrightarrow> block_size_' q = block_size_' r \<Longrightarrow>
   OndiskReader_Samples r = (n, r') \<Longrightarrow> OndiskReader_Samples q = (m, q') \<Longrightarrow>
     m = n \<and> data_samples_' q' = data_samples_' r' \<and> file_ptr_' q' = file_ptr_' r'
     \<and> block_size_' q' = block_size_' r'"
  by (auto simp: OndiskReader_Samples_def read_block_def Let_def)

lemma OndiskReader_pass_unfold:
  "OndiskReader_Samples r = (n, r') \<Longrightarrow>
   OndiskReader_pass r =
     (if n = 0 then ([], r')
      else (data_samples_' r' # fst (OndiskReader_pass r'), snd (OndiskReader_pass r')))"
  by (subst OndiskReader_pass.simps) (simp add: split_beta)

lemma OndiskReader_pass_frame:
  "contents (file_ptr_' (snd (OndiskReader_pass r))) = contents (file_ptr_' r)
   \<and> block_size_' (snd (OndiskReader_pass r)) = block_size_' r"
proof (induction r rule: OndiskReader_pass.induct)
  case (1 r)
  obtain n r' where s: "OndiskReader_Samples r = (n, r')" by force
  note fr = OndiskReader_Samples_frame [OF s]
  note u = OndiskReader_pass_unfold [OF s]
  show ?case
  proof (cases "n = 0")
    case True
    then show ?thesis using fr by (simp add: u)
  next
    case False
    from "1.IH" [OF refl s [symmetric] False] fr
    show ?thesis using False by (simp add: u)
  qed
qed

lemma OndiskReader_pass_cong:
  "file_ptr_' q = file_ptr_' r \<Longrightarrow> block_size_' q = block_size_' r
   \<Longrightarrow> fst (OndiskReader_pass q) = fst (OndiskReader_pass r)"
proof (induction r arbitrary: q rule: OndiskReader_pass.induct)
  case (1 r)
  obtain n r' where s: "OndiskReader_Samples r = (n, r')" by force
  obtain m q' where t: "OndiskReader_Samples q = (m, q')" by force
  note c = OndiskReader_Samples_cong [OF "1.prems" s t]
  show ?case
  proof (cases "n = 0")
    case True
    then show ?thesis using c
      by (simp add: OndiskReader_pass_unfold [OF s] OndiskReader_pass_unfold [OF t])
  next
    case False
    have "fst (OndiskReader_pass q') = fst (OndiskReader_pass r')"
      using c by (intro "1.IH" [OF refl s [symmetric] False]) simp_all
    then show ?thesis using c False
      by (simp add: OndiskReader_pass_unfold [OF s] OndiskReader_pass_unfold [OF t])
  qed
qed

lemma inmem3_pass: "fst (InmemReader_pass inmem3) = [[''1 1:0.5'', ''0 2:1.5''], [''1 3:2.5'']]"
  by (simp add: InmemReader_pass.simps InmemReader_Samples_def inmem3_def Let_def)

lemma ondisk3_pass: "fst (OndiskReader_pass ondisk3) = [[''1 1:0.5''], [''0 2:1.5'']]"
  by (simp add: OndiskReader_pass.simps OndiskReader_Samples_def read_block_def shrink_block_def
        ondisk3_def Let_def)

section \<open>Claims about \<^verbatim>\<open>SetShuffle\<close>\<close>

text \<open>
  C10. For an \<^verbatim>\<open>InmemReader\<close> whose order vector is empty, as it is before
  \<^verbatim>\<open>Initialize\<close> has filled it, \<^verbatim>\<open>SetShuffle(true)\<close> sets the shuffle flag and changes
  nothing else: the result does not depend on the random numbers, and the order vector
  stays empty. Whenever a call of \<^verbatim>\<open>SetShuffle\<close> changes the order vector, the argument
  was \<open>true\<close> and the order vector was not empty.
\<close>

theorem InmemReader_SetShuffle_empty_order:
  "(order_' r = [] \<longrightarrow>
      InmemReader_SetShuffle rand True r = r\<lparr>shuffle_' := True\<rparr> \<and>
      order_' (InmemReader_SetShuffle rand True r) = [])
   \<and> (order_' (InmemReader_SetShuffle rand b r) \<noteq> order_' r \<longrightarrow> b \<and> order_' r \<noteq> [])"
  by (auto simp: InmemReader_SetShuffle_def Let_def)

theorem InmemReader_SetShuffle_empty_order_witness:
  "order_' (InmemReader_new raw_inmem) = []
   \<and> InmemReader_SetShuffle (\<lambda>i. 0) True (InmemReader_new raw_inmem)
       = (InmemReader_new raw_inmem)\<lparr>shuffle_' := True\<rparr>
   \<and> order_' (InmemReader_SetShuffle (\<lambda>i. 0) True inmem3) \<noteq> order_' inmem3
   \<and> order_' inmem3 \<noteq> []"
proof -
  have e: "order_' (InmemReader_new raw_inmem) = []"
    by (simp add: InmemReader_new_def)
  have c: "order_' (InmemReader_SetShuffle (\<lambda>i. 0) True inmem3) \<noteq> order_' inmem3"
    by (simp add: InmemReader_SetShuffle_def inmem3_def random_shuffle_def shuffle_step_def
          iter_swap_def Let_def)
  note t1 = InmemReader_SetShuffle_empty_order
              [of "InmemReader_new raw_inmem" "\<lambda>i. 0" True, THEN conjunct1, rule_format, OF e]
  note t2 = InmemReader_SetShuffle_empty_order
              [of inmem3 "\<lambda>i. 0" True, THEN conjunct2, rule_format, OF c]
  show ?thesis
    using e c t1 t2 by blast
qed

text \<open>
  C5. For every \<^verbatim>\<open>OndiskReader\<close> and every argument, \<^verbatim>\<open>SetShuffle\<close> returns normally
  with the shuffle flag false and every other member as it was. With the argument
  \<open>true\<close> it writes one message, at severity \<^verbatim>\<open>ERROR\<close>, and the request is dropped; with
  \<open>false\<close> it writes nothing.
\<close>

theorem OndiskReader_SetShuffle_stays_unshuffled:
  "OndiskReader_SetShuffle True r =
      Inr ([(ERROR, ''Cannot set shuffle for OndiskReader.'')], r\<lparr>shuffle_' := False\<rparr>)
   \<and> OndiskReader_SetShuffle False r = Inr ([], r\<lparr>shuffle_' := False\<rparr>)
   \<and> (\<exists>out r'. OndiskReader_SetShuffle b r = Inr (out, r') \<and> shuffle_' r' = False
        \<and> r' = r\<lparr>shuffle_' := False\<rparr>)"
  by (cases b) (simp_all add: OndiskReader_SetShuffle_def LOG_def)




text \<open>
  C6. For every \<^verbatim>\<open>InmemReader\<close>, one full pass (all batches until \<^verbatim>\<open>Samples()\<close> returns
  zero, from the logical beginning) after shuffling was enabled yields the same multiset
  of rows as the pass of the reader before the shuffle, and so does the pass after a
  further \<^verbatim>\<open>Reset()\<close>. When the batch size is positive and the order vector of the
  unshuffled reader is a permutation of the row indices of the preloaded table, that
  multiset is the whole table: the shuffled pass is a permutation of the source rows.
\<close>

theorem InmemReader_shuffled_rows_permutation:
  "(pos_' r = 0 \<longrightarrow>
      mset (concat (fst (InmemReader_pass (InmemReader_SetShuffle rand True r))))
        = mset (concat (fst (InmemReader_pass r))))
   \<and> (pos_' r = 0 \<longrightarrow>
      mset (concat (fst (InmemReader_pass
              (InmemReader_Reset rand2 (snd (InmemReader_pass (InmemReader_SetShuffle rand True r)))))))
        = mset (concat (fst (InmemReader_pass r))))
   \<and> (pos_' r = 0 \<and> 0 < num_samples_' r \<and> mset (order_' r) = mset [0..<length (data_buf_' r)]
        \<longrightarrow>
      mset (concat (fst (InmemReader_pass (InmemReader_SetShuffle rand True r))))
        = mset (data_buf_' r))
   \<and> mset (order_' (InmemReader_SetShuffle rand True r)) = mset (order_' r)
   \<and> data_buf_' (InmemReader_SetShuffle rand True r) = data_buf_' r"
proof -
  let ?s = "InmemReader_SetShuffle rand True r"
  let ?e = "snd (InmemReader_pass ?s)"
  note f = InmemReader_SetShuffle_fields [of rand True r]
  note g = InmemReader_pass_frame [of ?s]
  have a: "mset (concat (fst (InmemReader_pass ?s))) = mset (concat (fst (InmemReader_pass r)))"
    if "pos_' r = 0"
    using that f by (simp add: InmemReader_pass_rows)
  have b: "mset (concat (fst (InmemReader_pass (InmemReader_Reset rand2 ?e))))
        = mset (concat (fst (InmemReader_pass r)))"
    if "pos_' r = 0"
  proof -
    have "mset (order_' (InmemReader_Reset rand2 ?e)) = mset (order_' r)"
      using f g by (simp add: InmemReader_Reset_def)
    moreover have "data_buf_' (InmemReader_Reset rand2 ?e) = data_buf_' r"
      "num_samples_' (InmemReader_Reset rand2 ?e) = num_samples_' r"
      "pos_' (InmemReader_Reset rand2 ?e) = 0"
      using f g by (simp_all add: InmemReader_Reset_def)
    ultimately show ?thesis using that
      by (simp add: InmemReader_pass_rows)
  qed
  have c: "mset (concat (fst (InmemReader_pass ?s))) = mset (data_buf_' r)"
    if "pos_' r = 0 \<and> 0 < num_samples_' r \<and> mset (order_' r) = mset [0..<length (data_buf_' r)]"
  proof -
    have "mset (random_shuffle rand (order_' r)) = mset [0..<length (data_buf_' r)]"
      using that by simp
    from rows_of_identity_order [OF this] show ?thesis
      using that f by (simp add: InmemReader_pass_rows)
  qed
  show ?thesis
    using a b c InmemReader_SetShuffle_order_mset [of rand True r] f by blast
qed

theorem InmemReader_shuffled_rows_permutation_witness:
  "pos_' inmem3 = 0 \<and> 0 < num_samples_' inmem3
   \<and> mset (order_' inmem3) = mset [0..<length (data_buf_' inmem3)]
   \<and> fst (InmemReader_pass (InmemReader_SetShuffle (\<lambda>i. 0) True inmem3))
       = [[''1 3:2.5'', ''1 1:0.5''], [''0 2:1.5'']]
   \<and> fst (InmemReader_pass inmem3) = [[''1 1:0.5'', ''0 2:1.5''], [''1 3:2.5'']]
   \<and> mset (concat (fst (InmemReader_pass (InmemReader_SetShuffle (\<lambda>i. 0) True inmem3))))
       = mset (data_buf_' inmem3)
   \<and> mset (concat (fst (InmemReader_pass (InmemReader_SetShuffle (\<lambda>i. 0) True inmem3))))
       = mset (concat (fst (InmemReader_pass inmem3)))"
proof -
  have h1: "pos_' inmem3 = 0" and h2: "0 < num_samples_' inmem3" by (simp_all add: inmem3_def)
  have i: "mset (order_' inmem3) = mset [0..<length (data_buf_' inmem3)]"
    by (simp add: inmem3_def upt_rec)
  have v: "fst (InmemReader_pass (InmemReader_SetShuffle (\<lambda>i. 0) True inmem3))
       = [[''1 3:2.5'', ''1 1:0.5''], [''0 2:1.5'']]"
    by (simp add: InmemReader_pass.simps InmemReader_Samples_def InmemReader_SetShuffle_def
          inmem3_def random_shuffle_def shuffle_step_def iter_swap_def Let_def upt_rec)
  note t = InmemReader_shuffled_rows_permutation [of inmem3 "\<lambda>i. 0" "\<lambda>i. 0"]
  note c1 = t [THEN conjunct1, rule_format, OF h1]
  have h3: "pos_' inmem3 = 0 \<and> 0 < num_samples_' inmem3
      \<and> mset (order_' inmem3) = mset [0..<length (data_buf_' inmem3)]"
    by (intro conjI h1 h2 i)
  note c3 = t [THEN conjunct2, THEN conjunct2, THEN conjunct1, rule_format, OF h3]
  show ?thesis by (intro conjI h1 h2 i v inmem3_pass c3 c1)
qed

section \<open>Claims about the configuration of the on-disk reader\<close>

lemma SetThreadPool_result:
  "SetThreadPool pool r =
     (if pool = nullptr then Inl (Check_failed ''CHECK_NOTNULL'') else Inr (r\<lparr>pool_' := pool\<rparr>))"
  by (simp add: SetThreadPool_def CHECK_NOTNULL_def)

lemma SetBlockSize_result:
  "SetBlockSize sz r =
     (if sz = 0 then Inl (Check_failed ''CHECK_GT'') else Inr (r\<lparr>block_size_' := sz\<rparr>))"
  by (simp add: SetBlockSize_def CHECK_GT_def word_greater_zero_iff)

lemma configure_result:
  "configure cs r = Inr r' \<Longrightarrow>
     r' = r\<lparr>pool_' := pool_' r', block_size_' := block_size_' r'\<rparr>
   \<and> ((\<exists>p. Call_SetThreadPool p \<in> set cs) \<longrightarrow> pool_' r' \<noteq> nullptr)
   \<and> ((\<forall>p. Call_SetThreadPool p \<notin> set cs) \<longrightarrow> pool_' r' = pool_' r)
   \<and> ((\<exists>n. Call_SetBlockSize n \<in> set cs) \<longrightarrow> block_size_' r' \<noteq> 0)
   \<and> ((\<forall>n. Call_SetBlockSize n \<notin> set cs) \<longrightarrow> block_size_' r' = block_size_' r)"
proof (induction cs r rule: configure.induct)
  case (1 r)
  then show ?case by auto
next
  case (2 pool cs r)
  have n: "pool \<noteq> nullptr" using "2.prems" by (auto simp: SetThreadPool_result split: if_splits)
  then have s: "SetThreadPool pool r = Inr (r\<lparr>pool_' := pool\<rparr>)"
    by (simp add: SetThreadPool_result)
  then have c: "configure cs (r\<lparr>pool_' := pool\<rparr>) = Inr r'" using "2.prems" by simp
  note ih = "2.IH" [OF s c]
  have e: "r' = r\<lparr>pool_' := pool_' r', block_size_' := block_size_' r'\<rparr>"
    using ih by (metis (no_types) OndiskReader.surjective OndiskReader.update_convs(3)
        OndiskReader.update_convs(5))
  show ?case
  proof (intro conjI impI)
    show "r' = r\<lparr>pool_' := pool_' r', block_size_' := block_size_' r'\<rparr>" by (rule e)
  next
    show "pool_' r' \<noteq> nullptr"
      using ih n by (cases "\<exists>p. Call_SetThreadPool p \<in> set cs") auto
  next
    assume "\<forall>p. Call_SetThreadPool p \<notin> set (Call_SetThreadPool pool # cs)"
    then show "pool_' r' = pool_' r" by auto
  next
    assume "\<exists>k. Call_SetBlockSize k \<in> set (Call_SetThreadPool pool # cs)"
    then show "block_size_' r' \<noteq> 0" using ih by auto
  next
    assume "\<forall>k. Call_SetBlockSize k \<notin> set (Call_SetThreadPool pool # cs)"
    then show "block_size_' r' = block_size_' r" using ih by auto
  qed
next
  case (3 sz cs r)
  have n: "sz \<noteq> 0" using "3.prems" by (auto simp: SetBlockSize_result split: if_splits)
  then have s: "SetBlockSize sz r = Inr (r\<lparr>block_size_' := sz\<rparr>)"
    by (simp add: SetBlockSize_result)
  then have c: "configure cs (r\<lparr>block_size_' := sz\<rparr>) = Inr r'" using "3.prems" by simp
  note ih = "3.IH" [OF s c]
  have e: "r' = r\<lparr>pool_' := pool_' r', block_size_' := block_size_' r'\<rparr>"
    using ih by (metis (no_types) OndiskReader.surjective OndiskReader.update_convs(3)
        OndiskReader.update_convs(5))
  show ?case
  proof (intro conjI impI)
    show "r' = r\<lparr>pool_' := pool_' r', block_size_' := block_size_' r'\<rparr>" by (rule e)
  next
    assume "\<exists>p. Call_SetThreadPool p \<in> set (Call_SetBlockSize sz # cs)"
    then show "pool_' r' \<noteq> nullptr" using ih by auto
  next
    assume "\<forall>p. Call_SetThreadPool p \<notin> set (Call_SetBlockSize sz # cs)"
    then show "pool_' r' = pool_' r" using ih by auto
  next
    show "block_size_' r' \<noteq> 0"
      using ih n by (cases "\<exists>k. Call_SetBlockSize k \<in> set cs") auto
  next
    assume "\<forall>k. Call_SetBlockSize k \<notin> set (Call_SetBlockSize sz # cs)"
    then show "block_size_' r' = block_size_' r" by auto
  qed
qed

text \<open>
  C8, as the code has it. \<^verbatim>\<open>SetThreadPool\<close> aborts on the null pointer and \<^verbatim>\<open>SetBlockSize\<close>
  on a size that is not positive (for a \<^verbatim>\<open>uint64\<close>: on 0); the check fails before the
  member is assigned, so no reader with the rejected value exists, and any other value is
  stored with nothing else changed. When both setters were called before \<^verbatim>\<open>Initialize\<close>
  and none aborted, \<^verbatim>\<open>Initialize\<close> is handed a non-null pool and a positive block size,
  whatever memory the reader was constructed in. When a setter was not called,
  \<^verbatim>\<open>Initialize\<close> is handed in that member what the memory of the object held: the
  constructor assigns neither member. If the memory held a non-null pool and a positive
  size, \<^verbatim>\<open>Initialize\<close>, whatever its body, does exactly what it does after both setters
  stored these values.
\<close>

theorem OndiskReader_configuration_checked:
  "SetThreadPool nullptr r = Inl (Check_failed ''CHECK_NOTNULL'')
   \<and> SetThreadPool (ThreadPool_at a) r = Inr (r\<lparr>pool_' := ThreadPool_at a\<rparr>)
   \<and> (sz \<le> 0 \<longrightarrow> SetBlockSize sz r = Inl (Check_failed ''CHECK_GT''))
   \<and> (0 < sz \<longrightarrow> SetBlockSize sz r = Inr (r\<lparr>block_size_' := sz\<rparr>))
   \<and> (configure cs (OndiskReader_new raw) = Inr r'
        \<and> (\<exists>p. Call_SetThreadPool p \<in> set cs) \<and> (\<exists>n. Call_SetBlockSize n \<in> set cs)
        \<longrightarrow> pool_' r' \<noteq> nullptr \<and> 0 < block_size_' r')
   \<and> (configure cs (OndiskReader_new raw) = Inr r' \<and> (\<forall>p. Call_SetThreadPool p \<notin> set cs)
        \<longrightarrow> pool_' r' = pool_' raw)
   \<and> (configure cs (OndiskReader_new raw) = Inr r' \<and> (\<forall>n. Call_SetBlockSize n \<notin> set cs)
        \<longrightarrow> block_size_' r' = block_size_' raw)
   \<and> (pool_' raw \<noteq> nullptr \<and> 0 < block_size_' raw \<longrightarrow>
        Initialize_after_setters Initialize [] raw
          = Initialize_after_setters Initialize
              [Call_SetThreadPool (pool_' raw), Call_SetBlockSize (block_size_' raw)]
              (raw\<lparr>pool_' := p0, block_size_' := b0\<rparr>))"
proof -
  have p1: "SetThreadPool nullptr r = Inl (Check_failed ''CHECK_NOTNULL'')"
    by (simp add: SetThreadPool_result)
  have p2: "SetThreadPool (ThreadPool_at a) r = Inr (r\<lparr>pool_' := ThreadPool_at a\<rparr>)"
    by (simp add: SetThreadPool_result)
  have p3: "sz \<le> 0 \<longrightarrow> SetBlockSize sz r = Inl (Check_failed ''CHECK_GT'')"
    by (simp add: SetBlockSize_result)
  have p4: "0 < sz \<longrightarrow> SetBlockSize sz r = Inr (r\<lparr>block_size_' := sz\<rparr>)"
    by (simp add: SetBlockSize_result word_greater_zero_iff)
  have z: "pool_' (OndiskReader_new raw) = pool_' raw"
    "block_size_' (OndiskReader_new raw) = block_size_' raw"
    by (simp_all add: OndiskReader_new_def)
  have p5: "pool_' r' \<noteq> nullptr \<and> 0 < block_size_' r'"
    if "configure cs (OndiskReader_new raw) = Inr r'
        \<and> (\<exists>p. Call_SetThreadPool p \<in> set cs) \<and> (\<exists>n. Call_SetBlockSize n \<in> set cs)"
    using configure_result [of cs "OndiskReader_new raw" r'] that
    by (simp add: word_greater_zero_iff)
  have p6: "pool_' r' = pool_' raw"
    if "configure cs (OndiskReader_new raw) = Inr r' \<and> (\<forall>p. Call_SetThreadPool p \<notin> set cs)"
    using configure_result [of cs "OndiskReader_new raw" r'] that z by simp
  have p7: "block_size_' r' = block_size_' raw"
    if "configure cs (OndiskReader_new raw) = Inr r' \<and> (\<forall>n. Call_SetBlockSize n \<notin> set cs)"
    using configure_result [of cs "OndiskReader_new raw" r'] that z by simp
  have p8: "Initialize_after_setters Initialize [] raw
          = Initialize_after_setters Initialize
              [Call_SetThreadPool (pool_' raw), Call_SetBlockSize (block_size_' raw)]
              (raw\<lparr>pool_' := p0, block_size_' := b0\<rparr>)"
    if "pool_' raw \<noteq> nullptr \<and> 0 < block_size_' raw"
  proof -
    have nz: "block_size_' raw \<noteq> 0" using that by (simp add: word_greater_zero_iff)
    have "configure [Call_SetThreadPool (pool_' raw), Call_SetBlockSize (block_size_' raw)]
            (OndiskReader_new (raw\<lparr>pool_' := p0, block_size_' := b0\<rparr>))
          = Inr (OndiskReader_new raw)"
      using that nz by (simp add: SetThreadPool_result SetBlockSize_result OndiskReader_new_def)
    then show ?thesis by (simp add: Initialize_after_setters_def)
  qed
  show ?thesis using p1 p2 p3 p4 p5 p6 p7 p8 by blast
qed

theorem OndiskReader_configuration_checked_witness:
  "(0 :: uint64) \<le> 0
   \<and> SetBlockSize 0 raw_ondisk = Inl (Check_failed ''CHECK_GT'')
   \<and> (0 :: uint64) < 4096
   \<and> SetBlockSize 4096 raw_ondisk = Inr (raw_ondisk\<lparr>block_size_' := 4096\<rparr>)
   \<and> configure [Call_SetThreadPool (ThreadPool_at 1), Call_SetBlockSize 4096]
        (OndiskReader_new raw_unset)
       = Inr ((OndiskReader_new raw_unset)\<lparr>pool_' := ThreadPool_at 1, block_size_' := 4096\<rparr>)
   \<and> pool_' ((OndiskReader_new raw_unset)\<lparr>pool_' := ThreadPool_at 1, block_size_' := 4096\<rparr>)
       \<noteq> nullptr
   \<and> configure [Call_SetBlockSize 4096] (OndiskReader_new raw_unset)
       = Inr ((OndiskReader_new raw_unset)\<lparr>block_size_' := 4096\<rparr>)
   \<and> pool_' ((OndiskReader_new raw_unset)\<lparr>block_size_' := 4096\<rparr>) = nullptr
   \<and> configure [Call_SetThreadPool (ThreadPool_at 1)] (OndiskReader_new raw_unset)
       = Inr ((OndiskReader_new raw_unset)\<lparr>pool_' := ThreadPool_at 1\<rparr>)
   \<and> block_size_' ((OndiskReader_new raw_unset)\<lparr>pool_' := ThreadPool_at 1\<rparr>) = 0
   \<and> pool_' raw_ondisk \<noteq> nullptr \<and> 0 < block_size_' raw_ondisk
   \<and> Initialize_after_setters Inr [] raw_ondisk
       = Initialize_after_setters Inr
           [Call_SetThreadPool (pool_' raw_ondisk), Call_SetBlockSize (block_size_' raw_ondisk)]
           raw_unset"
proof -
  let ?both = "[Call_SetThreadPool (ThreadPool_at 1), Call_SetBlockSize 4096]"
  let ?r = "(OndiskReader_new raw_unset)\<lparr>pool_' := ThreadPool_at 1, block_size_' := 4096\<rparr>"
  let ?q = "(OndiskReader_new raw_unset)\<lparr>block_size_' := 4096\<rparr>"
  let ?u = "(OndiskReader_new raw_unset)\<lparr>pool_' := ThreadPool_at 1\<rparr>"
  have c: "configure ?both (OndiskReader_new raw_unset) = Inr ?r"
    by (simp add: SetThreadPool_def SetBlockSize_def CHECK_NOTNULL_def CHECK_GT_def)
  have d: "configure [Call_SetBlockSize 4096] (OndiskReader_new raw_unset) = Inr ?q"
    by (simp add: SetBlockSize_def CHECK_GT_def)
  have e: "configure [Call_SetThreadPool (ThreadPool_at 1)] (OndiskReader_new raw_unset) = Inr ?u"
    by (simp add: SetThreadPool_def CHECK_NOTNULL_def)
  have z1: "(0 :: uint64) \<le> 0" and z2: "(0 :: uint64) < 4096" by simp_all
  have g: "pool_' raw_ondisk \<noteq> nullptr \<and> 0 < block_size_' raw_ondisk"
    by (simp add: raw_ondisk_def)
  have g1: "pool_' raw_ondisk \<noteq> nullptr" and g2: "0 < block_size_' raw_ondisk"
    using g by simp_all
  have pu: "pool_' raw_unset = nullptr" and bu: "block_size_' raw_unset = 0"
    by (simp_all add: raw_unset_def)
  note t0 = OndiskReader_configuration_checked [where sz = 0 and r = raw_ondisk]
  note t1 = OndiskReader_configuration_checked [where sz = 4096 and r = raw_ondisk]
  note tb = OndiskReader_configuration_checked [where cs = ?both and raw = raw_unset and r' = ?r]
  note tq = OndiskReader_configuration_checked
              [where cs = "[Call_SetBlockSize 4096]" and raw = raw_unset and r' = ?q]
  note tu = OndiskReader_configuration_checked
              [where cs = "[Call_SetThreadPool (ThreadPool_at 1)]" and raw = raw_unset and r' = ?u]
  note ti = OndiskReader_configuration_checked
              [where raw = raw_ondisk and Initialize = Inr and ?p0.0 = nullptr and ?b0.0 = 0]
  have a1: "SetBlockSize 0 raw_ondisk = Inl (Check_failed ''CHECK_GT'')" using t0 z1 by blast
  have a2: "SetBlockSize 4096 raw_ondisk = Inr (raw_ondisk\<lparr>block_size_' := 4096\<rparr>)"
    using t1 z2 by blast
  have a3: "pool_' ?r \<noteq> nullptr" using tb c by auto
  have a4: "pool_' ?q = nullptr" using tq d pu by auto
  have a5: "block_size_' ?u = 0" using tu e bu by auto
  have a6: "Initialize_after_setters Inr [] raw_ondisk
       = Initialize_after_setters Inr
           [Call_SetThreadPool (pool_' raw_ondisk), Call_SetBlockSize (block_size_' raw_ondisk)]
           raw_unset"
    using ti g by (simp add: raw_unset_def)
  show ?thesis by (intro conjI z1 a1 z2 a2 c a3 d a4 e a5 g1 g2 a6)
qed

text \<open>
  Calling \<^verbatim>\<open>Initialize\<close> without the two setters is not an error \<^verbatim>\<open>Initialize\<close> can report. A
  reader constructed in memory that holds a pool pointer and the size 12345, with no
  setter called, is the very reader that results from constructing one elsewhere and
  calling \<^verbatim>\<open>SetThreadPool\<close> and \<^verbatim>\<open>SetBlockSize(12345)\<close>; whatever the body of \<^verbatim>\<open>Initialize\<close>
  is, the two programs end alike.
\<close>

theorem Initialize_without_setters_counterexample:
  "configure [] (OndiskReader_new raw_ondisk) = Inr (OndiskReader_new raw_ondisk)
   \<and> configure [Call_SetThreadPool (ThreadPool_at 99), Call_SetBlockSize 12345]
        (OndiskReader_new raw_unset)
       = Inr (OndiskReader_new raw_ondisk)
   \<and> pool_' (OndiskReader_new raw_ondisk) = ThreadPool_at 99
   \<and> block_size_' (OndiskReader_new raw_ondisk) = 12345
   \<and> (\<lambda>Initialize :: OndiskReader \<Rightarrow> error + OndiskReader.
         Initialize_after_setters Initialize [] raw_ondisk)
     = (\<lambda>Initialize.
         Initialize_after_setters Initialize
           [Call_SetThreadPool (ThreadPool_at 99), Call_SetBlockSize 12345] raw_unset)"
  by (simp add: Initialize_after_setters_def SetThreadPool_def SetBlockSize_def
        CHECK_NOTNULL_def CHECK_GT_def OndiskReader_new_def raw_unset_def raw_ondisk_def)

section \<open>Two passes and one \<^verbatim>\<open>Reset\<close>\<close>

text \<open>
  C7. With shuffling disabled, two full passes separated by one \<^verbatim>\<open>Reset()\<close> yield the
  same batches, hence the same rows in the same order: for an \<^verbatim>\<open>InmemReader\<close> whose
  shuffle flag is false and that starts at the logical beginning, and for an
  \<^verbatim>\<open>OndiskReader\<close>, which never shuffles, that starts at the beginning of its file.
\<close>

theorem passes_identical_after_Reset:
  "(\<not> shuffle_' r \<and> pos_' r = 0 \<longrightarrow>
      fst (InmemReader_pass (InmemReader_Reset rand (snd (InmemReader_pass r))))
        = fst (InmemReader_pass r))
   \<and> (position (file_ptr_' d) = 0 \<longrightarrow>
      fst (OndiskReader_pass (OndiskReader_Reset (snd (OndiskReader_pass d))))
        = fst (OndiskReader_pass d))"
proof (intro conjI impI)
  assume a: "\<not> shuffle_' r \<and> pos_' r = 0"
  note f = InmemReader_pass_frame [of r]
  show "fst (InmemReader_pass (InmemReader_Reset rand (snd (InmemReader_pass r))))
        = fst (InmemReader_pass r)"
    by (rule InmemReader_pass_cong) (use a f in \<open>simp_all add: InmemReader_Reset_def\<close>)
next
  assume a: "position (file_ptr_' d) = 0"
  note f = OndiskReader_pass_frame [of d]
  have "(file_ptr_' (snd (OndiskReader_pass d)))\<lparr>position := 0\<rparr> = file_ptr_' d"
    using a f by (cases "file_ptr_' d"; cases "file_ptr_' (snd (OndiskReader_pass d))") simp
  then show "fst (OndiskReader_pass (OndiskReader_Reset (snd (OndiskReader_pass d))))
        = fst (OndiskReader_pass d)"
    using f by (intro OndiskReader_pass_cong) (simp_all add: OndiskReader_Reset_def)
qed

theorem passes_identical_after_Reset_witness:
  "\<not> shuffle_' inmem3 \<and> pos_' inmem3 = 0
   \<and> fst (InmemReader_pass inmem3) = [[''1 1:0.5'', ''0 2:1.5''], [''1 3:2.5'']]
   \<and> fst (InmemReader_pass (InmemReader_Reset (\<lambda>i. 0) (snd (InmemReader_pass inmem3))))
       = [[''1 1:0.5'', ''0 2:1.5''], [''1 3:2.5'']]
   \<and> position (file_ptr_' ondisk3) = 0
   \<and> fst (OndiskReader_pass ondisk3) = [[''1 1:0.5''], [''0 2:1.5'']]
   \<and> fst (OndiskReader_pass (OndiskReader_Reset (snd (OndiskReader_pass ondisk3))))
       = [[''1 1:0.5''], [''0 2:1.5'']]"
proof -
  have h: "\<not> shuffle_' inmem3 \<and> pos_' inmem3 = 0" by (simp add: inmem3_def)
  have g: "position (file_ptr_' ondisk3) = 0" by (simp add: ondisk3_def)
  note t = passes_identical_after_Reset [of inmem3 "\<lambda>i. 0" ondisk3]
  show ?thesis using t h g inmem3_pass ondisk3_pass by simp
qed

end
